theory Spec2Isabelle
  imports Complex_Main "HOL-Library.Multiset"
begin

section \<open>JSON values\<close>

text \<open>
  \<^verbatim>\<open>JsonValue\<close> of \<^verbatim>\<open>components/json-tree.tsx\<close>: a string, a number, a boolean, null,
  an array of values, or an object from string keys to values. An object is kept as the
  list of its own properties in the order in which they were created, which is the order
  in which its keys were inserted (for a decoded document, the order of its text). A
  JavaScript object holds each key once; nothing below depends on that, so the property
  list is not restricted. The payload of a number is never inspected by the code below.
\<close>

datatype JsonValue =
    JString string
  | JNumber real
  | JBoolean bool
  | JNull
  | JArray "JsonValue list"
  | JObject "(string \<times> JsonValue) list"

section \<open>Enumerating the properties of an object\<close>

text \<open>
  The decimal numeral of a natural number, as the conversion of a number to a string
  prints it (no sign, no leading zero).
\<close>

definition digit_char :: "nat \<Rightarrow> char" where
  "digit_char n = ''0123456789'' ! n"

function string_of_nat :: "nat \<Rightarrow> string" where
  "string_of_nat n =
     (if n < 10 then [digit_char n]
      else string_of_nat (n div 10) @ [digit_char (n mod 10)])"
  by pat_completeness auto
termination
  by (relation "measure id") auto

declare string_of_nat.simps [simp del]

text \<open>
  A key is an array index if it is the decimal numeral of a number below \<open>2\<^sup>3\<^sup>2 - 1\<close>:
  converting it to a number and back gives the key again. \<open>index_value\<close> reads a key
  as a decimal numeral; on a key with another character it gives a number whose numeral
  is not the key.
\<close>

definition digit_value :: "char \<Rightarrow> nat" where
  "digit_value c = length (takeWhile (\<lambda>d. d \<noteq> c) ''0123456789'')"

definition index_value :: "string \<Rightarrow> nat" where
  "index_value key = foldl (\<lambda>n c. 10 * n + digit_value c) 0 key"

definition is_array_index :: "string \<Rightarrow> bool" where
  "is_array_index key =
     (string_of_nat (index_value key) = key \<and> index_value key < 4294967295)"

text \<open>
  \<^verbatim>\<open>Object.entries\<close> and \<^verbatim>\<open>Object.values\<close> enumerate the own properties of an object as
  the language prescribes: first the properties whose key is an array index, by
  ascending index, then the other properties in the order of their creation.
\<close>

definition Object_entries :: "(string \<times> 'a) list \<Rightarrow> (string \<times> 'a) list" where
  "Object_entries props =
     sort_key (\<lambda>p. index_value (fst p)) (filter (\<lambda>p. is_array_index (fst p)) props)
       @ filter (\<lambda>p. \<not> is_array_index (fst p)) props"

definition Object_values :: "(string \<times> 'a) list \<Rightarrow> 'a list" where
  "Object_values props = map snd (Object_entries props)"

section \<open>Document statistics (\<^verbatim>\<open>app/page.tsx\<close>)\<close>

text \<open>
  \<^verbatim>\<open>JsonStats\<close>: five counters. They are JavaScript numbers that only ever hold counts
  and depths of a value held in memory, so they are natural numbers here.
\<close>

record JsonStats =
  nodeCount :: nat
  objectCount :: nat
  arrayCount :: nat
  primitiveCount :: nat
  maxDepth :: nat

text \<open>
  The reducer of both \<^verbatim>\<open>reduce\<close> calls in \<^verbatim>\<open>buildStats\<close>: the counters of the
  accumulator and of one child are added, the depths are joined by \<^verbatim>\<open>Math.max\<close>.
\<close>

definition addStats :: "JsonStats \<Rightarrow> JsonStats \<Rightarrow> JsonStats" where
  "addStats acc stats =
     \<lparr> nodeCount = nodeCount acc + nodeCount stats,
       objectCount = objectCount acc + objectCount stats,
       arrayCount = arrayCount acc + arrayCount stats,
       primitiveCount = primitiveCount acc + primitiveCount stats,
       maxDepth = max (maxDepth acc) (maxDepth stats) \<rparr>"

text \<open>
  \<^verbatim>\<open>buildStats(value, depth = 0)\<close>. The branches are tested in the order of the
  source: \<^verbatim>\<open>null\<close>, then \<^verbatim>\<open>Array.isArray\<close>, then \<^verbatim>\<open>typeof value === "object"\<close>,
  then everything else (strings, numbers, booleans). \<^verbatim>\<open>reduce\<close> folds from the left,
  for an object over \<^verbatim>\<open>Object.values(value)\<close>.
\<close>

function (sequential) buildStats :: "JsonValue \<Rightarrow> nat \<Rightarrow> JsonStats" where
  "buildStats JNull depth =
     \<lparr> nodeCount = 1, objectCount = 0, arrayCount = 0, primitiveCount = 1,
       maxDepth = depth \<rparr>"
| "buildStats (JArray entries) depth =
     foldl (\<lambda>acc entry. addStats acc (buildStats entry (depth + 1)))
       \<lparr> nodeCount = 1, objectCount = 0, arrayCount = 1, primitiveCount = 0,
         maxDepth = depth \<rparr>
       entries"
| "buildStats (JObject props) depth =
     foldl (\<lambda>acc entry. addStats acc (buildStats entry (depth + 1)))
       \<lparr> nodeCount = 1, objectCount = 1, arrayCount = 0, primitiveCount = 0,
         maxDepth = depth \<rparr>
       (Object_values props)"
| "buildStats _ depth =
     \<lparr> nodeCount = 1, objectCount = 0, arrayCount = 0, primitiveCount = 1,
       maxDepth = depth \<rparr>"
  by pat_completeness auto
termination
proof (relation "measure (\<lambda>(v, depth). size v)")
  fix entries :: "JsonValue list" and depth :: nat and acc :: JsonStats and entry
  assume "entry \<in> set entries"
  then have "size entry < Suc (size_list size entries)"
    by (induction entries) auto
  then show "((entry, depth + 1), JArray entries, depth) \<in> measure (\<lambda>(v, depth). size v)"
    by simp
next
  fix props :: "(string \<times> JsonValue) list" and depth :: nat and acc :: JsonStats and entry
  assume "entry \<in> set (Object_values props)"
  then obtain key where "(key, entry) \<in> set props"
    by (auto simp: Object_values_def Object_entries_def)
  then have "size entry < Suc (size_list (size_prod (\<lambda>_. 0) size) props)"
    by (induction props) auto
  then show "((entry, depth + 1), JObject props, depth) \<in> measure (\<lambda>(v, depth). size v)"
    by simp
qed simp

text \<open>
  The depths of all nodes of a value whose root is at \<open>depth\<close>, in document order: the
  node itself, then the nodes of each child one level further down. This is the reading
  of ``the depth of a node'' that the statements about \<^verbatim>\<open>maxDepth\<close> refer to; it is not
  part of the program.
\<close>

fun node_depths :: "JsonValue \<Rightarrow> nat \<Rightarrow> nat list" where
  "node_depths (JArray entries) depth =
     depth # concat (map (\<lambda>entry. node_depths entry (depth + 1)) entries)"
| "node_depths (JObject entries) depth =
     depth # concat (map (\<lambda>entry. node_depths entry (depth + 1)) (map snd entries))"
| "node_depths _ depth = [depth]"

section \<open>The rendered tree (\<^verbatim>\<open>components/json-tree.tsx\<close>)\<close>

text \<open>
  \<^verbatim>\<open>JsonPrimitive\<close> switches on \<^verbatim>\<open>typeof value\<close>: a string is shown quoted, a number and
  a boolean as they are, and everything whose type tag is \<^verbatim>\<open>"object"\<close> as \<^verbatim>\<open>null\<close>.
  The \<^verbatim>\<open>default\<close> branch (``unsupported'') needs a type tag that no \<^verbatim>\<open>JsonValue\<close> has.
\<close>

datatype PrimitiveView =
    StringView string
  | NumberView real
  | BooleanView bool
  | NullView

fun JsonPrimitive :: "JsonValue \<Rightarrow> PrimitiveView" where
  "JsonPrimitive (JString s) = StringView s"
| "JsonPrimitive (JNumber n) = NumberView n"
| "JsonPrimitive (JBoolean b) = BooleanView b"
| "JsonPrimitive _ = NullView"

text \<open>
  What one call of the component \<^verbatim>\<open>JsonNode\<close> renders, together with the props it was
  called with (\<^verbatim>\<open>name\<close>, \<^verbatim>\<open>depth\<close>, \<^verbatim>\<open>isLast\<close>): a \<^verbatim>\<open><details>\<close> element headed
  ``Object'' or ``Array'' with its \<^verbatim>\<open>open\<close> attribute and one child component per entry,
  or a \<^verbatim>\<open><div>\<close> row holding a \<^verbatim>\<open>JsonPrimitive\<close>, which has no \<^verbatim>\<open>open\<close> attribute
  and no children. Left out are the styling: the class names, the size caption of a
  container, the name caption (shown for a non-empty \<^verbatim>\<open>name\<close>) and the comma after a
  primitive row whose \<^verbatim>\<open>isLast\<close> is not set.
\<close>

datatype NodeKind = ObjectNode | ArrayNode | PrimitiveNode PrimitiveView

datatype TreeNode =
  TreeNode (tn_name: "string option") (tn_depth: nat) (tn_isLast: bool)
    (tn_kind: NodeKind) (tn_open: "bool option") (tn_children: "TreeNode list")

text \<open>The label of an array element, as the template literal \<^verbatim>\<open>`[${index}]`\<close> prints it.\<close>

definition index_label :: "nat \<Rightarrow> string" where
  "index_label index = ''['' @ string_of_nat index @ '']''"

text \<open>
  \<^verbatim>\<open>JsonNode({ name, value, depth, isLast })\<close>. The tests are made in the order of the
  source: \<^verbatim>\<open>isObject\<close>, then \<^verbatim>\<open>isArray\<close>, then the primitive row. For an object the
  children are made from \<^verbatim>\<open>entries = Object.entries(value)\<close>. \<^verbatim>\<open>map\<close> passes the index
  along with each entry; the comparison \<^verbatim>\<open>index === entries.length - 1\<close> is made in the
  integers, where the length of an empty list less one is \<open>-1\<close>.
\<close>

function (sequential) JsonNode :: "string option \<Rightarrow> JsonValue \<Rightarrow> nat \<Rightarrow> bool \<Rightarrow> TreeNode" where
  "JsonNode name (JObject props) depth isLast =
     TreeNode name depth isLast ObjectNode (Some (depth < 2))
       (map (\<lambda>(index, childName, childValue).
               JsonNode (Some childName) childValue (depth + 1)
                 (int index = int (length (Object_entries props)) - 1))
          (zip [0..<length (Object_entries props)] (Object_entries props)))"
| "JsonNode name (JArray entries) depth isLast =
     TreeNode name depth isLast ArrayNode (Some (depth < 2))
       (map (\<lambda>(index, childValue).
               JsonNode (Some (index_label index)) childValue (depth + 1)
                 (int index = int (length entries) - 1))
          (zip [0..<length entries] entries))"
| "JsonNode name v depth isLast =
     TreeNode name depth isLast (PrimitiveNode (JsonPrimitive v)) None []"
  by pat_completeness auto
termination
proof (relation "measure (\<lambda>(name, v, depth, isLast). size v)")
  fix props :: "(string \<times> JsonValue) list" and index childName childValue
    and p :: "nat \<times> string \<times> JsonValue" and q :: "string \<times> JsonValue"
    and name :: "string option" and depth :: nat and isLast :: bool
  assume "p \<in> set (zip [0..<length (Object_entries props)] (Object_entries props))"
    and "(index, q) = p" and "(childName, childValue) = q"
  then have "(childName, childValue) \<in> set (Object_entries props)"
    by (auto dest: set_zip_rightD)
  then have "(childName, childValue) \<in> set props"
    by (auto simp: Object_entries_def)
  then have "size childValue < Suc (size_list (size_prod (\<lambda>_. 0) size) props)"
    by (induction props) auto
  then show "((Some childName, childValue, depth + 1,
                 int index = int (length (Object_entries props)) - 1),
               name, JObject props, depth, isLast)
             \<in> measure (\<lambda>(name, v, depth, isLast). size v)"
    by simp
next
  fix entries :: "JsonValue list" and index childValue and p :: "nat \<times> JsonValue"
    and name :: "string option" and depth :: nat and isLast :: bool
  assume "p \<in> set (zip [0..<length entries] entries)" and "(index, childValue) = p"
  then have "childValue \<in> set entries"
    by (auto dest: set_zip_rightD)
  then have "size childValue < Suc (size_list size entries)"
    by (induction entries) auto
  then show "((Some (index_label index), childValue, depth + 1, int index = int (length entries) - 1),
               name, JArray entries, depth, isLast)
             \<in> measure (\<lambda>(name, v, depth, isLast). size v)"
    by simp
qed simp

text \<open>
  \<^verbatim>\<open>JsonTree({ value, rootLabel = "root" })\<close> renders the root: depth 0, \<^verbatim>\<open>isLast\<close> set.
  A missing \<^verbatim>\<open>rootLabel\<close> is \<open>None\<close>.
\<close>

definition JsonTree :: "JsonValue \<Rightarrow> string option \<Rightarrow> TreeNode" where
  "JsonTree v rootLabel =
     JsonNode (Some (case rootLabel of None \<Rightarrow> ''root'' | Some l \<Rightarrow> l)) v 0 True"

text \<open>
  All nodes of a rendered tree, parents before children, and the document a tree shows,
  read back from the labels and rows of the tree alone. Both are used to state
  properties of the tree; neither is part of the program.
\<close>

fun nodes :: "TreeNode \<Rightarrow> TreeNode list" where
  "nodes (TreeNode n d l k opn cs) = TreeNode n d l k opn cs # concat (map nodes cs)"

fun label_of :: "TreeNode \<Rightarrow> string" where
  "label_of t = (case tn_name t of None \<Rightarrow> [] | Some key \<Rightarrow> key)"

fun toValue :: "TreeNode \<Rightarrow> JsonValue" where
  "toValue (TreeNode n d l ObjectNode opn cs) = JObject (map (\<lambda>c. (label_of c, toValue c)) cs)"
| "toValue (TreeNode n d l ArrayNode opn cs) = JArray (map toValue cs)"
| "toValue (TreeNode n d l (PrimitiveNode (StringView s)) opn cs) = JString s"
| "toValue (TreeNode n d l (PrimitiveNode (NumberView x)) opn cs) = JNumber x"
| "toValue (TreeNode n d l (PrimitiveNode (BooleanView b)) opn cs) = JBoolean b"
| "toValue (TreeNode n d l (PrimitiveNode NullView) opn cs) = JNull"

text \<open>
  A value with the properties of every object in it listed in the order of their
  enumeration instead of the order of their creation. Not part of the program.
\<close>

function (sequential) enumerated :: "JsonValue \<Rightarrow> JsonValue" where
  "enumerated (JObject props) =
     JObject (map (\<lambda>(key, v). (key, enumerated v)) (Object_entries props))"
| "enumerated (JArray entries) = JArray (map enumerated entries)"
| "enumerated v = v"
  by pat_completeness auto
termination
proof (relation "measure size")
  fix props :: "(string \<times> JsonValue) list" and p :: "string \<times> JsonValue" and key v
  assume "p \<in> set (Object_entries props)" and "(key, v) = p"
  then have "(key, v) \<in> set props"
    by (auto simp: Object_entries_def)
  then have "size v < Suc (size_list (size_prod (\<lambda>_. 0) size) props)"
    by (induction props) auto
  then show "(v, JObject props) \<in> measure size"
    by simp
next
  fix entries :: "JsonValue list" and v
  assume "v \<in> set entries"
  then have "size v < Suc (size_list size entries)"
    by (induction entries) auto
  then show "(v, JArray entries) \<in> measure size"
    by simp
qed simp

section \<open>Loading a document (\<^verbatim>\<open>Home\<close> in \<^verbatim>\<open>app/page.tsx\<close>)\<close>

text \<open>
  The state of the page: the five \<^verbatim>\<open>useState\<close> cells. \<^verbatim>\<open>updatedAt\<close> is a point in
  time, kept as a number.
\<close>

record PageState =
  jsonText :: string
  data :: JsonValue
  activeLabel :: string
  error :: "string option"
  updatedAt :: nat

text \<open>
  What \<^verbatim>\<open>JSON.parse\<close> throws: an \<^verbatim>\<open>Error\<close> object with its message, or (as far as
  the \<^verbatim>\<open>catch\<close> block is concerned) any other value.
\<close>

datatype Thrown = ErrorObject string | OtherThrown

text \<open>
  \<^verbatim>\<open>parseAndLoad(text, label)\<close>. The decoder \<^verbatim>\<open>JSON.parse\<close> and the clock
  \<^verbatim>\<open>new Date()\<close> are parameters; a thrown value is \<open>Inl\<close>. On success the four setters
  run; in the \<^verbatim>\<open>catch\<close> block only \<^verbatim>\<open>setError\<close> does.
\<close>

definition parseAndLoad ::
  "(string \<Rightarrow> Thrown + JsonValue) \<Rightarrow> nat \<Rightarrow> PageState \<Rightarrow> string \<Rightarrow> string \<Rightarrow> PageState" where
  "parseAndLoad JSON_parse now s text label =
     (case JSON_parse text of
        Inr parsed \<Rightarrow>
          s\<lparr> data := parsed, activeLabel := label, error := None, updatedAt := now \<rparr>
      | Inl err \<Rightarrow>
          s\<lparr> error := Some (case err of
                 ErrorObject message \<Rightarrow> ''Unable to parse JSON: '' @ message
               | OtherThrown \<Rightarrow> ''Unable to parse JSON content.'') \<rparr>)"

text \<open>
  What the page derives from the state on every render: the statistics
  \<^verbatim>\<open>useMemo(() => buildStats(data), [data])\<close> and the tree
  \<^verbatim>\<open><JsonTree value={data} rootLabel="fromj.json" />\<close>.
\<close>

definition stats :: "PageState \<Rightarrow> JsonStats" where
  "stats s = buildStats (data s) 0"

definition tree :: "PageState \<Rightarrow> TreeNode" where
  "tree s = JsonTree (data s) (Some ''fromj.json'')"

section \<open>The traversals with a bounded call stack\<close>

text \<open>
  The two recursive traversals again, this time with a bound on the number of nested
  calls: every call uses up one unit, and a call made with none left gives no result
  (\<open>None\<close>), which then is the result of every caller. \<^verbatim>\<open>reduce\<close> and \<^verbatim>\<open>map\<close> visit
  the entries from left to right as before.
\<close>

fun buildStats_fuel :: "nat \<Rightarrow> JsonValue \<Rightarrow> nat \<Rightarrow> JsonStats option" where
  "buildStats_fuel 0 v depth = None"
| "buildStats_fuel (Suc fuel) JNull depth =
     Some \<lparr> nodeCount = 1, objectCount = 0, arrayCount = 0, primitiveCount = 1,
            maxDepth = depth \<rparr>"
| "buildStats_fuel (Suc fuel) (JArray entries) depth =
     foldl (\<lambda>acc entry.
              case acc of None \<Rightarrow> None
              | Some a \<Rightarrow> map_option (addStats a) (buildStats_fuel fuel entry (depth + 1)))
       (Some \<lparr> nodeCount = 1, objectCount = 0, arrayCount = 1, primitiveCount = 0,
               maxDepth = depth \<rparr>)
       entries"
| "buildStats_fuel (Suc fuel) (JObject props) depth =
     foldl (\<lambda>acc entry.
              case acc of None \<Rightarrow> None
              | Some a \<Rightarrow> map_option (addStats a) (buildStats_fuel fuel entry (depth + 1)))
       (Some \<lparr> nodeCount = 1, objectCount = 1, arrayCount = 0, primitiveCount = 0,
               maxDepth = depth \<rparr>)
       (Object_values props)"
| "buildStats_fuel (Suc fuel) _ depth =
     Some \<lparr> nodeCount = 1, objectCount = 0, arrayCount = 0, primitiveCount = 1,
            maxDepth = depth \<rparr>"

fun JsonNode_fuel ::
  "nat \<Rightarrow> string option \<Rightarrow> JsonValue \<Rightarrow> nat \<Rightarrow> bool \<Rightarrow> TreeNode option" where
  "JsonNode_fuel 0 name v depth isLast = None"
| "JsonNode_fuel (Suc fuel) name (JObject props) depth isLast =
     map_option (TreeNode name depth isLast ObjectNode (Some (depth < 2)))
       (those (map (\<lambda>(index, childName, childValue).
                      JsonNode_fuel fuel (Some childName) childValue (depth + 1)
                        (int index = int (length (Object_entries props)) - 1))
                 (zip [0..<length (Object_entries props)] (Object_entries props))))"
| "JsonNode_fuel (Suc fuel) name (JArray entries) depth isLast =
     map_option (TreeNode name depth isLast ArrayNode (Some (depth < 2)))
       (those (map (\<lambda>(index, childValue).
                      JsonNode_fuel fuel (Some (index_label index)) childValue (depth + 1)
                        (int index = int (length entries) - 1))
                 (zip [0..<length entries] entries)))"
| "JsonNode_fuel (Suc fuel) name v depth isLast =
     Some (TreeNode name depth isLast (PrimitiveNode (JsonPrimitive v)) None [])"

text \<open>
  The nesting height of a value (a primitive has height 0, a container one more than
  its highest entry), an array nested \<open>n\<close> levels deep around \<^verbatim>\<open>null\<close>, and an array
  of \<open>n\<close> times \<^verbatim>\<open>null\<close>.
\<close>

fun height :: "JsonValue \<Rightarrow> nat" where
  "height (JArray entries) = Suc (foldr max (map height entries) 0)"
| "height (JObject entries) = Suc (foldr max (map height (map snd entries)) 0)"
| "height _ = 0"

fun nested :: "nat \<Rightarrow> JsonValue" where
  "nested 0 = JNull"
| "nested (Suc n) = JArray [nested n]"

definition wide :: "nat \<Rightarrow> JsonValue" where
  "wide n = JArray (replicate n JNull)"

section \<open>Auxiliary notions\<close>

text \<open>A statistics record whose node count is the sum of its three kind counts.\<close>

definition counted :: "JsonStats \<Rightarrow> bool" where
  "counted s = (nodeCount s = objectCount s + arrayCount s + primitiveCount s)"

section \<open>Enumeration keeps the properties\<close>

lemmas enumeration_defs =
  Object_values_def Object_entries_def is_array_index_def index_value_def digit_value_def
  string_of_nat.simps digit_char_def

lemma set_Object_entries: "set (Object_entries props) = set props"
  by (auto simp: Object_entries_def)

lemma set_Object_values: "set (Object_values props) = set (map snd props)"
  by (simp add: Object_values_def set_Object_entries)

lemma Object_entries_Nil: "Object_entries [] = []"
  by (simp add: Object_entries_def)

lemma Object_values_Nil: "Object_values [] = []"
  by (simp add: Object_values_def Object_entries_Nil)

lemma Object_entries_no_index:
  assumes "filter (\<lambda>p. is_array_index (fst p)) props = []"
  shows "Object_entries props = props"
proof -
  from assms have "\<forall>p \<in> set props. \<not> is_array_index (fst p)"
    by (simp add: filter_empty_conv)
  then have "filter (\<lambda>p. \<not> is_array_index (fst p)) props = props"
    by (simp add: filter_id_conv)
  with assms show ?thesis by (simp add: Object_entries_def)
qed

lemma Object_entries_others:
  "filter (\<lambda>p. \<not> is_array_index (fst p)) (Object_entries props)
     = filter (\<lambda>p. \<not> is_array_index (fst p)) props"
  by (simp add: Object_entries_def filter_sort [symmetric] del: filter_sort) 

lemma Object_entries_indices:
  "filter (\<lambda>p. is_array_index (fst p)) (Object_entries props)
     = sort_key (\<lambda>p. index_value (fst p)) (filter (\<lambda>p. is_array_index (fst p)) props)"
  by (simp add: Object_entries_def filter_sort [symmetric] del: filter_sort)

section \<open>Worked example\<close>

text \<open>
  C1 (as stated). For the document \<^verbatim>\<open>{"a":[1,2,{"b":3}]}\<close> the claim gives six nodes,
  two objects, one array, three primitives and a maximal depth of 2. The counters are
  right, the depth is not: the root object is at depth 0, the array at 1, its three
  elements at 2 and the number \<^verbatim>\<open>3\<close> inside the inner object at 3.
\<close>

theorem buildStats_example_depth_not_2:
  "buildStats (JObject [(''a'', JArray [JNumber 1, JNumber 2, JObject [(''b'', JNumber 3)]])]) 0
     \<noteq> \<lparr> nodeCount = 6, objectCount = 2, arrayCount = 1, primitiveCount = 3, maxDepth = 2 \<rparr>"
  by (simp add: addStats_def enumeration_defs)

text \<open>
  C1 (amended). For the document \<^verbatim>\<open>{"a":[1,2,{"b":3}]}\<close> the statistics computed from
  depth 0 are six nodes, two objects, one array, three primitives and a maximal depth
  of 3.
\<close>

theorem buildStats_example:
  "buildStats (JObject [(''a'', JArray [JNumber 1, JNumber 2, JObject [(''b'', JNumber 3)]])]) 0
     = \<lparr> nodeCount = 6, objectCount = 2, arrayCount = 1, primitiveCount = 3, maxDepth = 3 \<rparr>"
  by (simp add: addStats_def enumeration_defs)

section \<open>The counters add up\<close>

lemma counted_addStats: "counted a \<Longrightarrow> counted s \<Longrightarrow> counted (addStats a s)"
  by (simp add: counted_def addStats_def)

lemma counted_foldl:
  "counted a \<Longrightarrow> (\<And>x. x \<in> set xs \<Longrightarrow> counted (f x)) \<Longrightarrow>
   counted (foldl (\<lambda>acc entry. addStats acc (f entry)) a xs)"
  by (induction xs arbitrary: a) (simp_all add: counted_addStats)

lemma counted_buildStats: "counted (buildStats v d)"
proof (induction v d rule: buildStats.induct)
  case (2 entries depth)
  have "counted \<lparr> nodeCount = 1, objectCount = 0, arrayCount = 1, primitiveCount = 0,
         maxDepth = depth \<rparr>" by (simp add: counted_def)
  then show ?case unfolding buildStats.simps
    by (rule counted_foldl) (rule 2)
next
  case (3 entries depth)
  have "counted \<lparr> nodeCount = 1, objectCount = 1, arrayCount = 0, primitiveCount = 0,
         maxDepth = depth \<rparr>" by (simp add: counted_def)
  then show ?case unfolding buildStats.simps
    by (rule counted_foldl) (rule 3)
qed (simp_all add: counted_def)

text \<open>
  C2. For every value, and from every starting depth, the node count returned by
  \<^verbatim>\<open>buildStats\<close> is the sum of its object, array and primitive counts.
\<close>

theorem buildStats_nodeCount_sum:
  "nodeCount (buildStats v depth) =
     objectCount (buildStats v depth) + arrayCount (buildStats v depth)
       + primitiveCount (buildStats v depth)"
  using counted_buildStats [of v depth] by (simp add: counted_def)

section \<open>The maximal depth\<close>

lemma maxDepth_foldl_ge:
  "maxDepth a \<le> maxDepth (foldl (\<lambda>acc entry. addStats acc (f entry)) a xs)"
proof (induction xs arbitrary: a)
  case (Cons x xs)
  have "maxDepth a \<le> maxDepth (addStats a (f x))" by (simp add: addStats_def)
  also have "\<dots> \<le> maxDepth (foldl (\<lambda>acc entry. addStats acc (f entry)) (addStats a (f x)) xs)"
    by (rule Cons.IH)
  finally show ?case by simp
qed simp

lemma maxDepth_foldl_ge_elem:
  "x \<in> set xs \<Longrightarrow> maxDepth (f x) \<le> maxDepth (foldl (\<lambda>acc entry. addStats acc (f entry)) a xs)"
proof (induction xs arbitrary: a)
  case (Cons y ys)
  show ?case
  proof (cases "x = y")
    case True
    have "maxDepth (f x) \<le> maxDepth (addStats a (f y))" by (simp add: addStats_def True)
    also have "\<dots> \<le> maxDepth (foldl (\<lambda>acc entry. addStats acc (f entry)) (addStats a (f y)) ys)"
      by (rule maxDepth_foldl_ge)
    finally show ?thesis by simp
  next
    case False
    with Cons.prems have "x \<in> set ys" by simp
    then show ?thesis by (simp add: Cons.IH)
  qed
qed simp

lemma maxDepth_foldl_cases:
  "maxDepth (foldl (\<lambda>acc entry. addStats acc (f entry)) a xs) = maxDepth a \<or>
   (\<exists>x \<in> set xs. maxDepth (foldl (\<lambda>acc entry. addStats acc (f entry)) a xs) = maxDepth (f x))"
proof (induction xs arbitrary: a)
  case (Cons y ys)
  have m: "maxDepth (addStats a (f y)) = maxDepth a \<or> maxDepth (addStats a (f y)) = maxDepth (f y)"
    by (simp add: addStats_def max_def)
  from Cons.IH [of "addStats a (f y)"] m show ?case by auto
qed simp

lemma maxDepth_in_node_depths: "maxDepth (buildStats v d) \<in> set (node_depths v d)"
proof (induction v d rule: buildStats.induct)
  case (2 entries depth)
  define a where "a = \<lparr> nodeCount = 1, objectCount = 0, arrayCount = 1, primitiveCount = 0,
         maxDepth = depth \<rparr>"
  define f where "f = (\<lambda>entry. buildStats entry (depth + 1))"
  have b: "buildStats (JArray entries) depth = foldl (\<lambda>acc entry. addStats acc (f entry)) a entries"
    by (simp add: a_def f_def)
  from maxDepth_foldl_cases [of f a entries]
  show ?case
  proof
    assume "maxDepth (foldl (\<lambda>acc entry. addStats acc (f entry)) a entries) = maxDepth a"
    then show ?thesis unfolding b by (simp add: a_def)
  next
    assume "\<exists>x\<in>set entries. maxDepth (foldl (\<lambda>acc entry. addStats acc (f entry)) a entries) = maxDepth (f x)"
    then obtain x where x: "x \<in> set entries"
      and m: "maxDepth (foldl (\<lambda>acc entry. addStats acc (f entry)) a entries) = maxDepth (f x)"
      by blast
    from 2 [OF x] have "maxDepth (f x) \<in> set (node_depths x (depth + 1))" by (simp add: f_def)
    with x show ?thesis unfolding b m by auto
  qed
next
  case (3 entries depth)
  define a where "a = \<lparr> nodeCount = 1, objectCount = 1, arrayCount = 0, primitiveCount = 0,
         maxDepth = depth \<rparr>"
  define f where "f = (\<lambda>entry. buildStats entry (depth + 1))"
  have b: "buildStats (JObject entries) depth = foldl (\<lambda>acc entry. addStats acc (f entry)) a (Object_values entries)"
    by (simp add: a_def f_def)
  from maxDepth_foldl_cases [of f a "Object_values entries"]
  show ?case
  proof
    assume "maxDepth (foldl (\<lambda>acc entry. addStats acc (f entry)) a (Object_values entries)) = maxDepth a"
    then show ?thesis unfolding b by (simp add: a_def)
  next
    assume "\<exists>x\<in>set (Object_values entries). maxDepth (foldl (\<lambda>acc entry. addStats acc (f entry)) a (Object_values entries)) = maxDepth (f x)"
    then obtain x where x: "x \<in> set (Object_values entries)"
      and m: "maxDepth (foldl (\<lambda>acc entry. addStats acc (f entry)) a (Object_values entries)) = maxDepth (f x)"
      by blast
    from 3 [OF x] have "maxDepth (f x) \<in> set (node_depths x (depth + 1))" by (simp add: f_def)
    moreover from x have "x \<in> set (map snd entries)" by (simp only: set_Object_values)
    ultimately show ?thesis unfolding b m by auto
  qed
qed simp_all

lemma node_depths_le_maxDepth: "n \<in> set (node_depths v d) \<Longrightarrow> n \<le> maxDepth (buildStats v d)"
proof (induction v d arbitrary: n rule: buildStats.induct)
  case (2 entries depth)
  from "2.prems" consider "n = depth" | x where "x \<in> set entries" "n \<in> set (node_depths x (depth + 1))"
    by auto
  then show ?case
  proof cases
    case 1
    then show ?thesis by (simp add: maxDepth_foldl_ge [where a = "\<lparr> nodeCount = 1, objectCount = 0, arrayCount = 1, primitiveCount = 0, maxDepth = depth \<rparr>", simplified])
  next
    case 2
    then have "n \<le> maxDepth (buildStats x (depth + 1))" by (rule "2.IH")
    also have "\<dots> \<le> maxDepth (buildStats (JArray entries) depth)"
      unfolding buildStats.simps using 2(1) by (rule maxDepth_foldl_ge_elem)
    finally show ?thesis .
  qed
next
  case (3 entries depth)
  from "3.prems" consider "n = depth" | x where "x \<in> set (Object_values entries)" "n \<in> set (node_depths x (depth + 1))"
    by (auto simp: set_Object_values)
  then show ?case
  proof cases
    case 1
    then show ?thesis by (simp add: maxDepth_foldl_ge [where a = "\<lparr> nodeCount = 1, objectCount = 1, arrayCount = 0, primitiveCount = 0, maxDepth = depth \<rparr>", simplified])
  next
    case 2
    then have "n \<le> maxDepth (buildStats x (depth + 1))" by (rule "3.IH")
    also have "\<dots> \<le> maxDepth (buildStats (JObject entries) depth)"
      unfolding buildStats.simps using 2(1) by (rule maxDepth_foldl_ge_elem)
    finally show ?thesis .
  qed
qed simp_all

lemma maxDepth_buildStats: "maxDepth (buildStats v d) = Max (set (node_depths v d))"
  by (rule sym, rule Max_eqI) (simp_all add: node_depths_le_maxDepth maxDepth_in_node_depths)

text \<open>
  C3. For every value, the maximal depth returned by \<^verbatim>\<open>buildStats\<close> is the greatest
  depth among the root and all of its descendants, where the root is at depth 0 (or at
  whatever depth the traversal is started from), every step into a child of a container
  adds 1, and containers count as nodes themselves: an empty array or object at depth
  \<open>depth\<close> gives \<open>depth\<close>.
\<close>

theorem maxDepth_greatest_depth:
  "maxDepth (buildStats v 0) = Max (set (node_depths v 0))
   \<and> maxDepth (buildStats v depth) = Max (set (node_depths v depth))
   \<and> maxDepth (buildStats (JArray []) depth) = depth
   \<and> maxDepth (buildStats (JObject []) depth) = depth"
  by (simp add: maxDepth_buildStats del: node_depths.simps buildStats.simps)
     (simp add: Object_values_Nil)

section \<open>Smallest documents\<close>

text \<open>
  C4. For the empty object \<^verbatim>\<open>buildStats\<close> returns one node, one object, no array, no
  primitive and maximal depth 0; for the empty array one node, no object, one array, no
  primitive and maximal depth 0. Started from any depth, an empty container is one node
  of its own kind and the maximal depth is that depth.
\<close>

theorem buildStats_empty_containers:
  "buildStats (JObject []) 0
     = \<lparr> nodeCount = 1, objectCount = 1, arrayCount = 0, primitiveCount = 0, maxDepth = 0 \<rparr>
   \<and> buildStats (JArray []) 0
     = \<lparr> nodeCount = 1, objectCount = 0, arrayCount = 1, primitiveCount = 0, maxDepth = 0 \<rparr>
   \<and> buildStats (JObject []) depth
     = \<lparr> nodeCount = 1, objectCount = 1, arrayCount = 0, primitiveCount = 0, maxDepth = depth \<rparr>
   \<and> buildStats (JArray []) depth
     = \<lparr> nodeCount = 1, objectCount = 0, arrayCount = 1, primitiveCount = 0, maxDepth = depth \<rparr>"
  by (simp add: Object_values_Nil)

text \<open>
  C5. For a root that is a primitive (\<^verbatim>\<open>null\<close>, a boolean, a number or a string)
  \<^verbatim>\<open>buildStats\<close> returns exactly one node, one primitive, no object, no array and
  maximal depth 0; \<^verbatim>\<open>null\<close> in particular is one node and one primitive.
\<close>

theorem buildStats_primitive_root:
  "buildStats JNull 0
     = \<lparr> nodeCount = 1, objectCount = 0, arrayCount = 0, primitiveCount = 1, maxDepth = 0 \<rparr>
   \<and> buildStats (JBoolean b) 0
     = \<lparr> nodeCount = 1, objectCount = 0, arrayCount = 0, primitiveCount = 1, maxDepth = 0 \<rparr>
   \<and> buildStats (JNumber x) 0
     = \<lparr> nodeCount = 1, objectCount = 0, arrayCount = 0, primitiveCount = 1, maxDepth = 0 \<rparr>
   \<and> buildStats (JString s) 0
     = \<lparr> nodeCount = 1, objectCount = 0, arrayCount = 0, primitiveCount = 1, maxDepth = 0 \<rparr>"
  by simp

section \<open>Every node of the tree is a call of \<^verbatim>\<open>JsonNode\<close>\<close>

lemma JsonNode_props [simp]:
  "tn_name (JsonNode name v depth isLast) = name"
  "tn_depth (JsonNode name v depth isLast) = depth"
  "tn_isLast (JsonNode name v depth isLast) = isLast"
  by (cases v; simp)+

lemma last_index: "(int index = int n - 1) = (Suc index = n)"
  by auto

lemma JsonNode_children_object:
  "tn_children (JsonNode name (JObject props) depth isLast) =
     map (\<lambda>index. JsonNode (Some (fst (Object_entries props ! index)))
                     (snd (Object_entries props ! index)) (depth + 1)
                     (Suc index = length (Object_entries props)))
       [0..<length (Object_entries props)]"
  by (rule nth_equalityI) (auto simp: split_beta last_index)

lemma JsonNode_children_array:
  "tn_children (JsonNode name (JArray entries) depth isLast) =
     map (\<lambda>index. JsonNode (Some (index_label index)) (entries ! index) (depth + 1)
                     (Suc index = length entries))
       [0..<length entries]"
  by (rule nth_equalityI) (auto simp: split_beta last_index)

lemma nodes_unfold: "nodes t = t # concat (map nodes (tn_children t))"
  by (cases t) simp

lemma in_nodes_cases:
  "p \<in> set (nodes t) \<Longrightarrow> p = t \<or> (\<exists>c \<in> set (tn_children t). p \<in> set (nodes c))"
  by (subst (asm) nodes_unfold) auto

lemma nodes_JsonNode:
  "p \<in> set (nodes (JsonNode name v depth isLast)) \<Longrightarrow>
   \<exists>name' v' depth' isLast'. p = JsonNode name' v' depth' isLast'"
proof (induction name v depth isLast rule: JsonNode.induct)
  case (1 name props depth isLast)
  define entries where "entries = Object_entries props"
  have ch: "tn_children (JsonNode name (JObject props) depth isLast) =
      map (\<lambda>x. JsonNode (Some (fst (snd x))) (snd (snd x)) (depth + 1)
                 (int (fst x) = int (length entries) - 1))
        (zip [0..<length entries] entries)"
    by (simp add: split_beta entries_def)
  from in_nodes_cases [OF "1.prems"] show ?case
  proof
    assume "p = JsonNode name (JObject props) depth isLast"
    then show ?thesis by blast
  next
    assume "\<exists>c\<in>set (tn_children (JsonNode name (JObject props) depth isLast)). p \<in> set (nodes c)"
    then obtain x where x: "x \<in> set (zip [0..<length entries] entries)"
      and p: "p \<in> set (nodes (JsonNode (Some (fst (snd x))) (snd (snd x)) (depth + 1)
                 (int (fst x) = int (length entries) - 1)))"
      unfolding ch by auto
    show ?thesis
      by (rule "1.IH" [OF x [unfolded entries_def], of "fst x" "snd x" "fst (snd x)" "snd (snd x)"])
         (use p in \<open>simp_all add: entries_def\<close>)
  qed
next
  case (2 name entries depth isLast)
  have ch: "tn_children (JsonNode name (JArray entries) depth isLast) =
      map (\<lambda>x. JsonNode (Some (index_label (fst x))) (snd x) (depth + 1)
                 (int (fst x) = int (length entries) - 1))
        (zip [0..<length entries] entries)"
    by (simp add: split_beta)
  from in_nodes_cases [OF "2.prems"] show ?case
  proof
    assume "p = JsonNode name (JArray entries) depth isLast"
    then show ?thesis by blast
  next
    assume "\<exists>c\<in>set (tn_children (JsonNode name (JArray entries) depth isLast)). p \<in> set (nodes c)"
    then obtain x where x: "x \<in> set (zip [0..<length entries] entries)"
      and p: "p \<in> set (nodes (JsonNode (Some (index_label (fst x))) (snd x) (depth + 1)
                 (int (fst x) = int (length entries) - 1)))"
      unfolding ch by auto
    show ?thesis
      by (rule "2.IH" [OF x, of "fst x" "snd x"]) (use p in simp_all)
  qed
next
  fix name s depth isLast
  assume "p \<in> set (nodes (JsonNode name (JString s) depth isLast))"
  from in_nodes_cases [OF this] have "p = JsonNode name (JString s) depth isLast" by simp
  then show "\<exists>name' v' depth' isLast'. p = JsonNode name' v' depth' isLast'" by blast
next
  fix name x depth isLast
  assume "p \<in> set (nodes (JsonNode name (JNumber x) depth isLast))"
  from in_nodes_cases [OF this] have "p = JsonNode name (JNumber x) depth isLast" by simp
  then show "\<exists>name' v' depth' isLast'. p = JsonNode name' v' depth' isLast'" by blast
next
  fix name b depth isLast
  assume "p \<in> set (nodes (JsonNode name (JBoolean b) depth isLast))"
  from in_nodes_cases [OF this] have "p = JsonNode name (JBoolean b) depth isLast" by simp
  then show "\<exists>name' v' depth' isLast'. p = JsonNode name' v' depth' isLast'" by blast
next
  fix name depth isLast
  assume "p \<in> set (nodes (JsonNode name JNull depth isLast))"
  from in_nodes_cases [OF this] have "p = JsonNode name JNull depth isLast" by simp
  then show "\<exists>name' v' depth' isLast'. p = JsonNode name' v' depth' isLast'" by blast
qed


lemma JsonNode_child_depth:
  "c \<in> set (tn_children (JsonNode name v depth isLast)) \<Longrightarrow> tn_depth c = depth + 1"
  by (cases v) (auto simp: split_beta)

lemma JsonNode_child_isLast:
  assumes "i < length (tn_children (JsonNode name v depth isLast))"
  shows "tn_isLast (tn_children (JsonNode name v depth isLast) ! i)
           = (Suc i = length (tn_children (JsonNode name v depth isLast)))"
proof (cases v)
  case (JArray entries)
  with assms show ?thesis unfolding JArray JsonNode_children_array by simp
next
  case (JObject entries)
  with assms show ?thesis unfolding JObject JsonNode_children_object by simp
qed (use assms in simp_all)

lemma JsonNode_array_labels:
  assumes "tn_kind (JsonNode name v depth isLast) = ArrayNode"
  shows "map tn_name (tn_children (JsonNode name v depth isLast))
           = map (\<lambda>i. Some (index_label i)) [0..<length (tn_children (JsonNode name v depth isLast))]"
proof (cases v)
  case (JArray entries)
  show ?thesis unfolding JArray JsonNode_children_array by (simp add: comp_def)
qed (use assms in simp_all)

lemma toValue_JsonNode: "toValue (JsonNode name v depth isLast) = enumerated v"
proof (induction name v depth isLast rule: JsonNode.induct)
  case (1 name props depth isLast)
  define zs where "zs = zip [0..<length (Object_entries props)] (Object_entries props)"
  define g where "g = (\<lambda>x :: nat \<times> string \<times> JsonValue.
      JsonNode (Some (fst (snd x))) (snd (snd x)) (depth + 1)
        (int (fst x) = int (length (Object_entries props)) - 1))"
  have ch: "tn_children (JsonNode name (JObject props) depth isLast) = map g zs"
    by (simp add: split_beta g_def zs_def)
  have step: "(label_of (g x), toValue (g x)) = (fst (snd x), enumerated (snd (snd x)))"
    if "x \<in> set zs" for x
    using "1.IH" [of x "fst x" "snd x" "fst (snd x)" "snd (snd x)"] that
    by (simp add: g_def zs_def)
  have "toValue (JsonNode name (JObject props) depth isLast)
          = JObject (map (\<lambda>x. (label_of (g x), toValue (g x))) zs)"
    by (simp add: split_beta g_def zs_def comp_def)
  also have "map (\<lambda>x. (label_of (g x), toValue (g x))) zs
          = map (\<lambda>x. (fst (snd x), enumerated (snd (snd x)))) zs"
    by (rule map_cong [OF refl]) (rule step)
  also have "\<dots> = map (\<lambda>(key, v). (key, enumerated v)) (map snd zs)"
    by (simp add: comp_def split_beta)
  also have "map snd zs = Object_entries props" by (simp add: zs_def)
  finally show ?case by simp
next
  case (2 name entries depth isLast)
  define zs where "zs = zip [0..<length entries] entries"
  define g where "g = (\<lambda>x :: nat \<times> JsonValue.
      JsonNode (Some (index_label (fst x))) (snd x) (depth + 1) (int (fst x) = int (length entries) - 1))"
  have step: "toValue (g x) = enumerated (snd x)" if "x \<in> set zs" for x
    using "2.IH" [of x "fst x" "snd x"] that
    by (simp add: g_def zs_def)
  have "toValue (JsonNode name (JArray entries) depth isLast) = JArray (map (\<lambda>x. toValue (g x)) zs)"
    by (simp add: split_beta g_def zs_def comp_def)
  also have "map (\<lambda>x. toValue (g x)) zs = map (\<lambda>x. enumerated (snd x)) zs"
    by (rule map_cong [OF refl]) (rule step)
  also have "\<dots> = map enumerated (map snd zs)"
    by (simp add: comp_def)
  also have "map snd zs = entries" by (simp add: zs_def)
  finally show ?case by simp
qed simp_all

lemma depths_of_nodes:
  "map tn_depth (nodes (JsonNode name v depth isLast)) = node_depths (enumerated v) depth"
proof (induction name v depth isLast rule: JsonNode.induct)
  case (1 name props depth isLast)
  define zs where "zs = zip [0..<length (Object_entries props)] (Object_entries props)"
  define g where "g = (\<lambda>x :: nat \<times> string \<times> JsonValue.
      JsonNode (Some (fst (snd x))) (snd (snd x)) (depth + 1)
        (int (fst x) = int (length (Object_entries props)) - 1))"
  have ch: "tn_children (JsonNode name (JObject props) depth isLast) = map g zs"
    by (simp add: split_beta g_def zs_def)
  have step: "map tn_depth (nodes (g x)) = node_depths (enumerated (snd (snd x))) (depth + 1)"
    if "x \<in> set zs" for x
    using "1.IH" [of x "fst x" "snd x" "fst (snd x)" "snd (snd x)"] that
    by (simp add: g_def zs_def)
  have "map tn_depth (nodes (JsonNode name (JObject props) depth isLast))
          = depth # concat (map (\<lambda>x. map tn_depth (nodes (g x))) zs)"
    by (subst nodes_unfold) (simp add: ch map_concat comp_def del: JsonNode.simps)
  also have "map (\<lambda>x. map tn_depth (nodes (g x))) zs
          = map (\<lambda>x. node_depths (enumerated (snd (snd x))) (depth + 1)) zs"
    by (rule map_cong [OF refl]) (rule step)
  also have "\<dots> = map (\<lambda>entry. node_depths entry (depth + 1))
                    (map snd (map (\<lambda>(key, v). (key, enumerated v)) (map snd zs)))"
    by (simp add: comp_def split_beta)
  also have "map snd zs = Object_entries props" by (simp add: zs_def)
  finally show ?case by simp
next
  case (2 name entries depth isLast)
  define zs where "zs = zip [0..<length entries] entries"
  define g where "g = (\<lambda>x :: nat \<times> JsonValue.
      JsonNode (Some (index_label (fst x))) (snd x) (depth + 1) (int (fst x) = int (length entries) - 1))"
  have ch: "tn_children (JsonNode name (JArray entries) depth isLast) = map g zs"
    by (simp add: split_beta g_def zs_def)
  have step: "map tn_depth (nodes (g x)) = node_depths (enumerated (snd x)) (depth + 1)"
    if "x \<in> set zs" for x
    using "2.IH" [of x "fst x" "snd x"] that
    by (simp add: g_def zs_def)
  have "map tn_depth (nodes (JsonNode name (JArray entries) depth isLast))
          = depth # concat (map (\<lambda>x. map tn_depth (nodes (g x))) zs)"
    by (subst nodes_unfold) (simp add: ch map_concat comp_def del: JsonNode.simps)
  also have "map (\<lambda>x. map tn_depth (nodes (g x))) zs
          = map (\<lambda>x. node_depths (enumerated (snd x)) (depth + 1)) zs"
    by (rule map_cong [OF refl]) (rule step)
  also have "\<dots> = map (\<lambda>entry. node_depths entry (depth + 1)) (map enumerated (map snd zs))"
    by (simp add: comp_def)
  also have "map snd zs = entries" by (simp add: zs_def)
  finally show ?case by simp
qed simp_all

section \<open>Initial open state\<close>

text \<open>
  C6. For every node of the tree rendered by \<^verbatim>\<open>JsonTree\<close>: a container (object or
  array) carries the \<^verbatim>\<open>open\<close> attribute, and whenever a node carries it, it is set
  exactly if the depth of the node is less than 2. A container at depth 2 starts closed.
  (A primitive row is not a \<^verbatim>\<open><details>\<close> element and carries no such attribute.)
\<close>

theorem defaultOpen_iff_depth_less_2:
  assumes "p \<in> set (nodes (JsonTree v rootLabel))"
  shows "(tn_kind p = ObjectNode \<or> tn_kind p = ArrayNode \<longrightarrow> tn_open p = Some (tn_depth p < 2))
         \<and> (\<forall>flag. tn_open p = Some flag \<longrightarrow> flag = (tn_depth p < 2))"
proof -
  from assms obtain name' v' depth' isLast' where p: "p = JsonNode name' v' depth' isLast'"
    unfolding JsonTree_def by (blast dest: nodes_JsonNode)
  show ?thesis unfolding p by (cases v') simp_all
qed

text \<open>
  An instance: in the tree of \<^verbatim>\<open>{"a":[1,2,{"b":3}]}\<close> the inner object is a node at
  depth 2, and it starts closed.
\<close>

theorem defaultOpen_iff_depth_less_2_witness:
  "TreeNode (Some ''[2]'') 2 True ObjectNode (Some False)
       [TreeNode (Some ''b'') 3 True (PrimitiveNode (NumberView 3)) None []]
     \<in> set (nodes (JsonTree
           (JObject [(''a'', JArray [JNumber 1, JNumber 2, JObject [(''b'', JNumber 3)]])]) None))
   \<and> tn_open (TreeNode (Some ''[2]'') 2 True ObjectNode (Some False)
       [TreeNode (Some ''b'') 3 True (PrimitiveNode (NumberView 3)) None []]) = Some False"
proof -
  have h: "TreeNode (Some ''[2]'') 2 True ObjectNode (Some False)
       [TreeNode (Some ''b'') 3 True (PrimitiveNode (NumberView 3)) None []]
     \<in> set (nodes (JsonTree
           (JObject [(''a'', JArray [JNumber 1, JNumber 2, JObject [(''b'', JNumber 3)]])]) None))"
    by (simp add: JsonTree_def index_label_def enumeration_defs)
  from defaultOpen_iff_depth_less_2 [OF h] h show ?thesis by simp
qed

section \<open>The tree mirrors the document\<close>

text \<open>
  C7 (as stated). The claim has the children of an object node in the order in which
  the keys were inserted. For the object \<^verbatim>\<open>{"b":true,"a":null,"1":false}\<close> that order
  is \<^verbatim>\<open>b\<close>, \<^verbatim>\<open>a\<close>, \<^verbatim>\<open>1\<close>, but \<^verbatim>\<open>Object.entries\<close> lists the array index \<^verbatim>\<open>1\<close> first and
  the tree shows \<^verbatim>\<open>1\<close>, \<^verbatim>\<open>b\<close>, \<^verbatim>\<open>a\<close>.
\<close>

theorem object_children_not_in_insertion_order:
  "map tn_name (tn_children (JsonTree
       (JObject [(''b'', JBoolean True), (''a'', JNull), (''1'', JBoolean False)]) None))
     \<noteq> [Some ''b'', Some ''a'', Some ''1'']"
  by (simp add: JsonTree_def enumeration_defs)

text \<open>
  C7 (amended). For every value the tree rendered by \<^verbatim>\<open>JsonTree\<close> has the shape of the
  value as \<^verbatim>\<open>Object.entries\<close> enumerates it: read back from its labels and rows it is
  the value with the properties of every object in enumeration order (so no entry is
  dropped or added), its nodes have in this order the depths of the nodes of that value,
  the root is at depth 0, every child of every node is one deeper than its parent, and
  the children of every array node are labelled \<^verbatim>\<open>[0]\<close>, \<^verbatim>\<open>[1]\<close>, ... in this order. For
  every call of \<^verbatim>\<open>JsonNode\<close> on an object the children carry the keys and show the values
  of the enumerated properties, in the order of the enumeration; where no key of the
  object is an array index this is the order in which the keys were inserted. The
  enumeration is a rearrangement of the properties that lists the properties with an
  array index as key by ascending index and keeps the other properties in the order of
  their insertion. On an array the children carry the index labels and show the elements
  in index order.
\<close>

theorem JsonTree_mirrors_value:
  "toValue (JsonTree v rootLabel) = enumerated v
   \<and> map tn_depth (nodes (JsonTree v rootLabel)) = node_depths (enumerated v) 0
   \<and> tn_depth (JsonTree v rootLabel) = 0
   \<and> (\<forall>p \<in> set (nodes (JsonTree v rootLabel)).
         (\<forall>c \<in> set (tn_children p). tn_depth c = tn_depth p + 1)
         \<and> (tn_kind p = ArrayNode \<longrightarrow>
              map tn_name (tn_children p)
                = map (\<lambda>i. Some (index_label i)) [0..<length (tn_children p)]))
   \<and> map tn_name (tn_children (JsonNode name (JObject props) depth isLast))
        = map (\<lambda>entry. Some (fst entry)) (Object_entries props)
   \<and> map toValue (tn_children (JsonNode name (JObject props) depth isLast))
        = map (\<lambda>entry. enumerated (snd entry)) (Object_entries props)
   \<and> (filter (\<lambda>entry. is_array_index (fst entry)) props = [] \<longrightarrow>
         map tn_name (tn_children (JsonNode name (JObject props) depth isLast))
           = map (\<lambda>entry. Some (fst entry)) props
         \<and> map toValue (tn_children (JsonNode name (JObject props) depth isLast))
           = map (\<lambda>entry. enumerated (snd entry)) props)
   \<and> mset (Object_entries props) = mset props
   \<and> sorted (map (\<lambda>entry. index_value (fst entry))
         (filter (\<lambda>entry. is_array_index (fst entry)) (Object_entries props)))
   \<and> filter (\<lambda>entry. \<not> is_array_index (fst entry)) (Object_entries props)
        = filter (\<lambda>entry. \<not> is_array_index (fst entry)) props
   \<and> map tn_name (tn_children (JsonNode name (JArray items) depth isLast))
        = map (\<lambda>i. Some (index_label i)) [0..<length items]
   \<and> map toValue (tn_children (JsonNode name (JArray items) depth isLast))
        = map enumerated items"
proof -
  have round: "toValue (JsonTree v rootLabel) = enumerated v"
    unfolding JsonTree_def by (rule toValue_JsonNode)
  have depths: "map tn_depth (nodes (JsonTree v rootLabel)) = node_depths (enumerated v) 0"
    unfolding JsonTree_def by (rule depths_of_nodes)
  have root: "tn_depth (JsonTree v rootLabel) = 0"
    unfolding JsonTree_def by simp
  have every: "\<forall>p \<in> set (nodes (JsonTree v rootLabel)).
         (\<forall>c \<in> set (tn_children p). tn_depth c = tn_depth p + 1)
         \<and> (tn_kind p = ArrayNode \<longrightarrow>
              map tn_name (tn_children p)
                = map (\<lambda>i. Some (index_label i)) [0..<length (tn_children p)])"
  proof
    fix p assume "p \<in> set (nodes (JsonTree v rootLabel))"
    then obtain name' v' depth' isLast' where p: "p = JsonNode name' v' depth' isLast'"
      unfolding JsonTree_def by (blast dest: nodes_JsonNode)
    have "\<forall>c \<in> set (tn_children p). tn_depth c = tn_depth p + 1"
      unfolding p using JsonNode_child_depth [of _ name' v' depth' isLast'] by simp
    moreover have "tn_kind p = ArrayNode \<longrightarrow>
              map tn_name (tn_children p)
                = map (\<lambda>i. Some (index_label i)) [0..<length (tn_children p)]"
      unfolding p using JsonNode_array_labels [of name' v' depth' isLast'] by blast
    ultimately show "(\<forall>c \<in> set (tn_children p). tn_depth c = tn_depth p + 1)
         \<and> (tn_kind p = ArrayNode \<longrightarrow>
              map tn_name (tn_children p)
                = map (\<lambda>i. Some (index_label i)) [0..<length (tn_children p)])"
      by blast
  qed
  have okeys: "map tn_name (tn_children (JsonNode name (JObject props) depth isLast))
        = map (\<lambda>entry. Some (fst entry)) (Object_entries props)"
    unfolding JsonNode_children_object
    by (rule nth_equalityI) simp_all
  have ovals: "map toValue (tn_children (JsonNode name (JObject props) depth isLast))
        = map (\<lambda>entry. enumerated (snd entry)) (Object_entries props)"
    unfolding JsonNode_children_object
    by (rule nth_equalityI) (simp_all add: toValue_JsonNode del: JsonNode.simps)
  have plain: "filter (\<lambda>entry. is_array_index (fst entry)) props = [] \<longrightarrow>
         map tn_name (tn_children (JsonNode name (JObject props) depth isLast))
           = map (\<lambda>entry. Some (fst entry)) props
         \<and> map toValue (tn_children (JsonNode name (JObject props) depth isLast))
           = map (\<lambda>entry. enumerated (snd entry)) props"
    using okeys ovals by (simp add: Object_entries_no_index del: JsonNode.simps)
  have perm: "mset (Object_entries props) = mset props"
    by (simp add: Object_entries_def)
  have asc: "sorted (map (\<lambda>entry. index_value (fst entry))
         (filter (\<lambda>entry. is_array_index (fst entry)) (Object_entries props)))"
    by (simp add: Object_entries_indices)
  have akeys: "map tn_name (tn_children (JsonNode name (JArray items) depth isLast))
        = map (\<lambda>i. Some (index_label i)) [0..<length items]"
    unfolding JsonNode_children_array by (simp add: comp_def)
  have avals: "map toValue (tn_children (JsonNode name (JArray items) depth isLast))
        = map enumerated items"
    unfolding JsonNode_children_array
    by (rule nth_equalityI) (simp_all add: toValue_JsonNode del: JsonNode.simps)
  from round depths root every okeys ovals plain perm asc Object_entries_others [of props]
    akeys avals
  show ?thesis by blast
qed

text \<open>
  An instance: in the tree of \<^verbatim>\<open>{"b":[1,null],"1":false}\<close> the array is a node; its two
  children are labelled \<^verbatim>\<open>[0]\<close> and \<^verbatim>\<open>[1]\<close> and are at depth 2, and the children of the
  root are labelled \<^verbatim>\<open>1\<close> and \<^verbatim>\<open>b\<close> in this order. No key of \<^verbatim>\<open>{"b":null,"a":null}\<close>
  is an array index, and the children of that object are labelled \<^verbatim>\<open>b\<close> and \<^verbatim>\<open>a\<close>.
\<close>

theorem JsonTree_mirrors_value_witness:
  "JsonNode (Some ''b'') (JArray [JNumber 1, JNull]) 1 True
     \<in> set (nodes (JsonTree (JObject [(''b'', JArray [JNumber 1, JNull]), (''1'', JBoolean False)]) None))
   \<and> tn_kind (JsonNode (Some ''b'') (JArray [JNumber 1, JNull]) 1 True) = ArrayNode
   \<and> map tn_name (tn_children (JsonNode (Some ''b'') (JArray [JNumber 1, JNull]) 1 True))
       = [Some ''[0]'', Some ''[1]'']
   \<and> map tn_depth (tn_children (JsonNode (Some ''b'') (JArray [JNumber 1, JNull]) 1 True))
       = [2, 2]
   \<and> map tn_name (tn_children
         (JsonNode (Some ''root'')
            (JObject [(''b'', JArray [JNumber 1, JNull]), (''1'', JBoolean False)]) 0 True))
       = [Some ''1'', Some ''b'']
   \<and> filter (\<lambda>entry. is_array_index (fst entry)) [(''b'', JNull), (''a'', JNull)] = []
   \<and> map tn_name (tn_children
         (JsonNode (Some ''root'') (JObject [(''b'', JNull), (''a'', JNull)]) 0 True))
       = [Some ''b'', Some ''a'']"
proof -
  have h: "JsonNode (Some ''b'') (JArray [JNumber 1, JNull]) 1 True
     \<in> set (nodes (JsonTree (JObject [(''b'', JArray [JNumber 1, JNull]), (''1'', JBoolean False)]) None))"
    by (simp add: JsonTree_def index_label_def enumeration_defs)
  have k: "tn_kind (JsonNode (Some ''b'') (JArray [JNumber 1, JNull]) 1 True) = ArrayNode"
    by simp
  have f: "filter (\<lambda>entry. is_array_index (fst entry)) [(''b'', JNull), (''a'', JNull)] = []"
    by (simp add: enumeration_defs)
  note every = JsonTree_mirrors_value
         [of "JObject [(''b'', JArray [JNumber 1, JNull]), (''1'', JBoolean False)]" None,
          THEN conjunct2, THEN conjunct2, THEN conjunct2, THEN conjunct1, rule_format, OF h]
  from every [THEN conjunct2, rule_format, OF k]
  have labels: "map tn_name (tn_children (JsonNode (Some ''b'') (JArray [JNumber 1, JNull]) 1 True))
       = map (\<lambda>i. Some (index_label i))
           [0..<length (tn_children (JsonNode (Some ''b'') (JArray [JNumber 1, JNull]) 1 True))]" .
  have "[0..<length (tn_children (JsonNode (Some ''b'') (JArray [JNumber 1, JNull]) 1 True))]
       = [0, 1]"
    by (simp add: upt_rec)
  with labels
  have names: "map tn_name (tn_children (JsonNode (Some ''b'') (JArray [JNumber 1, JNull]) 1 True))
       = [Some ''[0]'', Some ''[1]'']"
    by (simp add: index_label_def enumeration_defs del: JsonNode.simps)
  have depths: "map tn_depth (tn_children (JsonNode (Some ''b'') (JArray [JNumber 1, JNull]) 1 True))
       = [2, 2]"
    by simp
  from JsonTree_mirrors_value
         [where name = "Some ''root''" and depth = 0 and isLast = True
            and props = "[(''b'', JArray [JNumber 1, JNull]), (''1'', JBoolean False)]",
          THEN conjunct2, THEN conjunct2, THEN conjunct2, THEN conjunct2, THEN conjunct1]
  have keys: "map tn_name (tn_children
         (JsonNode (Some ''root'')
            (JObject [(''b'', JArray [JNumber 1, JNull]), (''1'', JBoolean False)]) 0 True))
       = [Some ''1'', Some ''b'']"
    by (simp add: enumeration_defs del: JsonNode.simps)
  from JsonTree_mirrors_value
         [where name = "Some ''root''" and depth = 0 and isLast = True
            and props = "[(''b'', JNull), (''a'', JNull)]",
          THEN conjunct2, THEN conjunct2, THEN conjunct2, THEN conjunct2,
          THEN conjunct2, THEN conjunct2, THEN conjunct1, rule_format, OF f, THEN conjunct1]
  have plain: "map tn_name (tn_children
         (JsonNode (Some ''root'') (JObject [(''b'', JNull), (''a'', JNull)]) 0 True))
       = [Some ''b'', Some ''a'']"
    by (simp del: JsonNode.simps)
  from h k names depths keys f plain show ?thesis by blast
qed

section \<open>The last sibling\<close>

text \<open>
  C8. The root of the tree rendered by \<^verbatim>\<open>JsonTree\<close> has \<^verbatim>\<open>isLast\<close> set, and for
  every node of the tree the child at position \<open>i\<close> has \<^verbatim>\<open>isLast\<close> set exactly if it
  is the final one of the children of that node.
\<close>

theorem isLast_final_sibling:
  "tn_isLast (JsonTree v rootLabel)
   \<and> (\<forall>p \<in> set (nodes (JsonTree v rootLabel)). \<forall>i < length (tn_children p).
         tn_isLast (tn_children p ! i) = (Suc i = length (tn_children p)))"
proof
  show "tn_isLast (JsonTree v rootLabel)"
    unfolding JsonTree_def by simp
  show "\<forall>p \<in> set (nodes (JsonTree v rootLabel)). \<forall>i < length (tn_children p).
         tn_isLast (tn_children p ! i) = (Suc i = length (tn_children p))"
  proof (intro ballI allI impI)
    fix p i
    assume "p \<in> set (nodes (JsonTree v rootLabel))" and i: "i < length (tn_children p)"
    then obtain name' v' depth' isLast' where p: "p = JsonNode name' v' depth' isLast'"
      unfolding JsonTree_def by (blast dest: nodes_JsonNode)
    from i show "tn_isLast (tn_children p ! i) = (Suc i = length (tn_children p))"
      unfolding p by (rule JsonNode_child_isLast)
  qed
qed

text \<open>
  An instance: of the three elements of the array in \<^verbatim>\<open>{"a":[1,2,null]}\<close> the second
  is not the last sibling and the third is.
\<close>

theorem isLast_final_sibling_witness:
  "JsonNode (Some ''a'') (JArray [JNumber 1, JNumber 2, JNull]) 1 True
     \<in> set (nodes (JsonTree (JObject [(''a'', JArray [JNumber 1, JNumber 2, JNull])]) None))
   \<and> (1::nat) < length (tn_children (JsonNode (Some ''a'') (JArray [JNumber 1, JNumber 2, JNull]) 1 True))
   \<and> \<not> tn_isLast (tn_children (JsonNode (Some ''a'') (JArray [JNumber 1, JNumber 2, JNull]) 1 True) ! 1)
   \<and> tn_isLast (tn_children (JsonNode (Some ''a'') (JArray [JNumber 1, JNumber 2, JNull]) 1 True) ! 2)"
proof -
  have h: "JsonNode (Some ''a'') (JArray [JNumber 1, JNumber 2, JNull]) 1 True
     \<in> set (nodes (JsonTree (JObject [(''a'', JArray [JNumber 1, JNumber 2, JNull])]) None))"
    by (simp add: JsonTree_def enumeration_defs)
  have l: "length (tn_children (JsonNode (Some ''a'') (JArray [JNumber 1, JNumber 2, JNull]) 1 True)) = 3"
    by simp
  from isLast_final_sibling [of "JObject [(''a'', JArray [JNumber 1, JNumber 2, JNull])]" None,
        THEN conjunct2, rule_format, OF h, of 1]
    isLast_final_sibling [of "JObject [(''a'', JArray [JNumber 1, JNumber 2, JNull])]" None,
        THEN conjunct2, rule_format, OF h, of 2]
    h
  show ?thesis unfolding l by simp
qed

section \<open>A failed decode keeps the document\<close>

text \<open>
  C9. Whenever \<^verbatim>\<open>JSON.parse\<close> throws on the text, \<^verbatim>\<open>parseAndLoad\<close> leaves the
  document held by the page as it was, and with it the statistics and the tree derived
  from it; the label and the time of the last load do not change either.
\<close>

theorem parseAndLoad_failure_keeps_document:
  assumes "JSON_parse text = Inl err"
  shows "data (parseAndLoad JSON_parse now s text label) = data s
         \<and> stats (parseAndLoad JSON_parse now s text label) = stats s
         \<and> tree (parseAndLoad JSON_parse now s text label) = tree s
         \<and> activeLabel (parseAndLoad JSON_parse now s text label) = activeLabel s
         \<and> updatedAt (parseAndLoad JSON_parse now s text label) = updatedAt s"
  using assms by (simp add: parseAndLoad_def stats_def tree_def)

text \<open>
  An instance: a decoder that rejects the text \<^verbatim>\<open>[1,\<close>, with the array \<^verbatim>\<open>[1]\<close>
  loaded before.
\<close>

theorem parseAndLoad_failure_keeps_document_witness:
  "(\<lambda>t. if t = ''null'' then Inr JNull else Inl (ErrorObject ''Unexpected end of JSON input''))
      ''[1,'' = Inl (ErrorObject ''Unexpected end of JSON input'')
   \<and> data (parseAndLoad
        (\<lambda>t. if t = ''null'' then Inr JNull else Inl (ErrorObject ''Unexpected end of JSON input''))
        7
        \<lparr> jsonText = ''[1,'', data = JArray [JNumber 1], activeLabel = ''Sample dataset'',
          error = None, updatedAt = 3 \<rparr>
        ''[1,'' ''Manual input'') = JArray [JNumber 1]
   \<and> stats (parseAndLoad
        (\<lambda>t. if t = ''null'' then Inr JNull else Inl (ErrorObject ''Unexpected end of JSON input''))
        7
        \<lparr> jsonText = ''[1,'', data = JArray [JNumber 1], activeLabel = ''Sample dataset'',
          error = None, updatedAt = 3 \<rparr>
        ''[1,'' ''Manual input'')
       = \<lparr> nodeCount = 2, objectCount = 0, arrayCount = 1, primitiveCount = 1, maxDepth = 1 \<rparr>"
proof -
  have h: "(\<lambda>t. if t = ''null'' then Inr JNull else Inl (ErrorObject ''Unexpected end of JSON input''))
      ''[1,'' = Inl (ErrorObject ''Unexpected end of JSON input'')"
    by simp
  from parseAndLoad_failure_keeps_document
        [of "\<lambda>t. if t = ''null'' then Inr JNull else Inl (ErrorObject ''Unexpected end of JSON input'')"
            "''[1,''" "ErrorObject ''Unexpected end of JSON input''" 7
            "\<lparr> jsonText = ''[1,'', data = JArray [JNumber 1], activeLabel = ''Sample dataset'',
               error = None, updatedAt = 3 \<rparr>" "''Manual input''", OF h]
  show ?thesis by (simp add: stats_def addStats_def)
qed

section \<open>The traversals return for every document\<close>

lemma foldl_fuel_Some:
  assumes "\<And>x. x \<in> set xs \<Longrightarrow> g x = Some (f x)"
  shows "foldl (\<lambda>acc entry. case acc of None \<Rightarrow> None
                 | Some a \<Rightarrow> map_option (addStats a) (g entry)) (Some a) xs
         = Some (foldl (\<lambda>acc entry. addStats acc (f entry)) a xs)"
  using assms by (induction xs arbitrary: a) simp_all

lemma those_map_Some:
  assumes "\<And>x. x \<in> set xs \<Longrightarrow> g x = Some (f x)"
  shows "those (map g xs) = Some (map f xs)"
  using assms by (induction xs) simp_all

lemma height_entry: "x \<in> set xs \<Longrightarrow> height x \<le> foldr max (map height xs) 0"
  by (induction xs) auto

lemma buildStats_fuel_enough:
  "height v < fuel \<Longrightarrow> buildStats_fuel fuel v depth = Some (buildStats v depth)"
proof (induction fuel arbitrary: v depth)
  case 0
  then show ?case by simp
next
  case (Suc fuel)
  show ?case
  proof (cases v)
    case (JArray entries)
    have "buildStats_fuel fuel x (depth + 1) = Some (buildStats x (depth + 1))"
      if "x \<in> set entries" for x
    proof (rule Suc.IH)
      from that have "height x \<le> foldr max (map height entries) 0" by (rule height_entry)
      with Suc.prems show "height x < fuel" by (simp add: JArray)
    qed
    then show ?thesis unfolding JArray buildStats_fuel.simps buildStats.simps
      by (rule foldl_fuel_Some)
  next
    case (JObject entries)
    have "buildStats_fuel fuel x (depth + 1) = Some (buildStats x (depth + 1))"
      if "x \<in> set (Object_values entries)" for x
    proof (rule Suc.IH)
      from that have "x \<in> set (map snd entries)" by (simp only: set_Object_values)
      then have "height x \<le> foldr max (map height (map snd entries)) 0" by (rule height_entry)
      with Suc.prems show "height x < fuel" by (simp add: JObject)
    qed
    then show ?thesis unfolding JObject buildStats_fuel.simps buildStats.simps
      by (rule foldl_fuel_Some)
  qed simp_all
qed

lemma JsonNode_fuel_enough:
  "height v < fuel \<Longrightarrow> JsonNode_fuel fuel name v depth isLast = Some (JsonNode name v depth isLast)"
proof (induction fuel arbitrary: name v depth isLast)
  case 0
  then show ?case by simp
next
  case (Suc fuel)
  show ?case
  proof (cases v)
    case (JArray entries)
    have "(\<lambda>(index, childValue).
             JsonNode_fuel fuel (Some (index_label index)) childValue (depth + 1)
               (int index = int (length entries) - 1)) x
          = Some ((\<lambda>(index, childValue).
             JsonNode (Some (index_label index)) childValue (depth + 1)
               (int index = int (length entries) - 1)) x)"
      if "x \<in> set (zip [0..<length entries] entries)" for x
    proof -
      from that have "snd x \<in> set entries"
        using set_zip_rightD [of "fst x" "snd x" "[0..<length entries]" entries] by simp
      then have "height (snd x) \<le> foldr max (map height entries) 0" by (rule height_entry)
      with Suc.prems have "height (snd x) < fuel" by (simp add: JArray)
      then show ?thesis by (simp add: split_beta Suc.IH)
    qed
    then have "those (map (\<lambda>(index, childValue).
             JsonNode_fuel fuel (Some (index_label index)) childValue (depth + 1)
               (int index = int (length entries) - 1)) (zip [0..<length entries] entries))
        = Some (map (\<lambda>(index, childValue).
             JsonNode (Some (index_label index)) childValue (depth + 1)
               (int index = int (length entries) - 1)) (zip [0..<length entries] entries))"
      by (rule those_map_Some)
    then show ?thesis unfolding JArray JsonNode_fuel.simps JsonNode.simps by simp
  next
    case (JObject props)
    define entries where "entries = Object_entries props"
    have "(\<lambda>(index, childName, childValue).
             JsonNode_fuel fuel (Some childName) childValue (depth + 1)
               (int index = int (length entries) - 1)) x
          = Some ((\<lambda>(index, childName, childValue).
             JsonNode (Some childName) childValue (depth + 1)
               (int index = int (length entries) - 1)) x)"
      if "x \<in> set (zip [0..<length entries] entries)" for x
    proof -
      from that have "snd x \<in> set entries"
        using set_zip_rightD [of "fst x" "snd x" "[0..<length entries]" entries] by simp
      then have "snd x \<in> set props" by (simp add: entries_def set_Object_entries)
      then have "snd (snd x) \<in> set (map snd props)" by simp
      then have "height (snd (snd x)) \<le> foldr max (map height (map snd props)) 0"
        by (rule height_entry)
      with Suc.prems have "height (snd (snd x)) < fuel" by (simp add: JObject)
      then show ?thesis by (simp add: split_beta Suc.IH)
    qed
    then have "those (map (\<lambda>(index, childName, childValue).
             JsonNode_fuel fuel (Some childName) childValue (depth + 1)
               (int index = int (length entries) - 1)) (zip [0..<length entries] entries))
        = Some (map (\<lambda>(index, childName, childValue).
             JsonNode (Some childName) childValue (depth + 1)
               (int index = int (length entries) - 1)) (zip [0..<length entries] entries))"
      by (rule those_map_Some)
    then show ?thesis unfolding JObject JsonNode_fuel.simps JsonNode.simps entries_def by simp
  qed simp_all
qed

lemma maxDepth_nested: "maxDepth (buildStats (nested n) depth) = depth + n"
  by (induction n arbitrary: depth) (simp_all add: addStats_def)

lemma height_nested: "height (nested n) = n"
  by (induction n) simp_all

lemma nodeCount_foldl_nulls:
  "nodeCount (foldl (\<lambda>acc entry. addStats acc (buildStats entry depth)) a (replicate n JNull))
     = nodeCount a + n"
  by (induction n arbitrary: a) (simp_all add: addStats_def)

text \<open>
  C10. Both traversals return for every value: with one more nested call allowed than
  the nesting height of the value, \<^verbatim>\<open>buildStats\<close> and \<^verbatim>\<open>JsonNode\<close> with a bounded call
  stack give a result, and it is the result of the unbounded definitions. Neither depth
  nor size is capped: an array nested \<open>n\<close> deep has height \<open>n\<close> and gets maximal depth
  \<open>n\<close>, and an array of \<open>n\<close> elements gets \<open>n + 1\<close> nodes, for every \<open>n\<close>.
\<close>

theorem traversal_total:
  "buildStats_fuel (Suc (height v)) v depth = Some (buildStats v depth)
   \<and> JsonNode_fuel (Suc (height v)) name v depth isLast = Some (JsonNode name v depth isLast)
   \<and> height (nested n) = n
   \<and> maxDepth (buildStats (nested n) 0) = n
   \<and> nodeCount (buildStats (wide n) 0) = Suc n"
  by (simp add: buildStats_fuel_enough JsonNode_fuel_enough maxDepth_nested height_nested
        wide_def nodeCount_foldl_nulls
      del: buildStats_fuel.simps JsonNode_fuel.simps JsonNode.simps)

end
